theory Spec2Isabelle
  imports Complex_Main
begin

section \<open>Column values\<close>

text \<open>
  The program (\<^verbatim>\<open>src/utils/metadata/market_data_manager.py\<close>) works on polars data
  frames.  A cell of a column is either a value or null, so a cell is an \<open>option\<close> and
  \<open>None\<close> is null.  Prices and percentages are Float64 in the source; they are modelled
  as exact rationals, so the theory speaks about the decimal values the floats stand for.
  One group of the frame (the rows of one name, which the source obtains by sorting on
  name and date and then using \<^verbatim>\<open>over\<close> or \<^verbatim>\<open>group_by\<close> on the name) is a list of rows
  in date order.

  A binary operator of a polars expression gives null when an operand is null.
\<close>

fun lift2 :: "('a \<Rightarrow> 'b \<Rightarrow> 'c) \<Rightarrow> 'a option \<Rightarrow> 'b option \<Rightarrow> 'c option" where
  "lift2 f (Some a) (Some b) = Some (f a b)"
| "lift2 f _ _ = None"

text \<open>The Boolean operators \<^verbatim>\<open>|\<close> and \<^verbatim>\<open>&\<close> follow Kleene's three-valued logic.\<close>

fun or3 :: "bool option \<Rightarrow> bool option \<Rightarrow> bool option" where
  "or3 (Some True) _ = Some True"
| "or3 _ (Some True) = Some True"
| "or3 (Some False) (Some False) = Some False"
| "or3 _ _ = None"

fun and3 :: "bool option \<Rightarrow> bool option \<Rightarrow> bool option" where
  "and3 (Some False) _ = Some False"
| "and3 _ (Some False) = Some False"
| "and3 (Some True) (Some True) = Some True"
| "and3 _ _ = None"

text \<open>
  Python's truth test of a cell read from a Boolean column, and the test of
  \<^verbatim>\<open>pl.when\<close>: null and false both take the other branch.
\<close>

definition truthy :: "bool option \<Rightarrow> bool" where
  "truthy b = (b = Some True)"

text \<open>
  \<^verbatim>\<open>round(2)\<close> rounds to two decimals, halves away from zero.
\<close>

definition round2 :: "rat \<Rightarrow> rat" where
  "round2 x = (if 0 \<le> x then of_int \<lfloor>x * 100 + 1 / 2\<rfloor> / 100
               else - (of_int \<lfloor>- x * 100 + 1 / 2\<rfloor> / 100))"

text \<open>
  \<^verbatim>\<open>shift(n)\<close> inside one group moves the column down by \<open>n\<close> rows and fills the first
  \<open>n\<close> rows with null; \<^verbatim>\<open>shift(1, fill_value=v)\<close> fills with \<open>v\<close>.
\<close>

definition shift :: "nat \<Rightarrow> 'a option list \<Rightarrow> 'a option list" where
  "shift n xs = take (length xs) (replicate n None @ xs)"

definition shift_fill :: "'a \<Rightarrow> 'a list \<Rightarrow> 'a list" where
  "shift_fill v xs = take (length xs) (v # xs)"

text \<open>
  A row of the stock table, with the columns the computations read:
  \<^verbatim>\<open>daima\<close> (code), \<^verbatim>\<open>mingcheng\<close> (name), \<^verbatim>\<open>kaipan\<close> (open), \<^verbatim>\<open>shoupan\<close> (close),
  \<^verbatim>\<open>zuigao\<close> (high) and \<^verbatim>\<open>zhangdiefu\<close> (the daily percentage change the data provider
  supplies).  The table the program loads has no previous-close column.
\<close>

record bar =
  daima :: "string option"
  mingcheng :: "string option"
  kaipan :: "rat option"
  shoupan :: "rat option"
  zuigao :: "rat option"
  zhangdiefu :: "rat option"

section \<open>Candle streaks: \<^verbatim>\<open>add_candlestick_trend_streaks\<close>\<close>

text \<open>The two marker columns: close above open, and close below open.\<close>

definition yangxian :: "bar \<Rightarrow> bool option" where
  "yangxian r = lift2 (\<lambda>c k. c > k) (shoupan r) (kaipan r)"

definition yinxian :: "bar \<Rightarrow> bool option" where
  "yinxian r = lift2 (\<lambda>c k. c < k) (shoupan r) (kaipan r)"

text \<open>
  The loop of \<^verbatim>\<open>_calc_streaks\<close> for one marker list: \<open>prev\<close> is the counter written at
  index \<open>i - 1\<close>; at \<open>i = 0\<close> the source writes \<open>1\<close>, which is \<open>prev + 1\<close> for \<open>prev = 0\<close>.
\<close>

fun streak_loop :: "int \<Rightarrow> bool option list \<Rightarrow> int list" where
  "streak_loop prev [] = []"
| "streak_loop prev (p # ps) =
     (let s = (if truthy p then prev + 1 else 0) in s # streak_loop s ps)"

definition calc_streaks :: "bar list \<Rightarrow> int list \<times> int list" where
  "calc_streaks grp = (streak_loop 0 (map yangxian grp), streak_loop 0 (map yinxian grp))"

definition up_streak :: "bar list \<Rightarrow> int list" where
  "up_streak grp = fst (calc_streaks grp)"

definition down_streak :: "bar list \<Rightarrow> int list" where
  "down_streak grp = snd (calc_streaks grp)"

section \<open>Limit prices and limit flags: \<^verbatim>\<open>compute_limits\<close>\<close>

text \<open>
  \<^verbatim>\<open>custom_limits\<close> is a dictionary; its items are visited in insertion order, so it is
  an association list.
\<close>

definition custom_limits :: "(string \<times> rat) list" where
  "custom_limits =
     [(''68'', 1 / 5), (''30'', 1 / 5), (''8'', 3 / 10), (''4'', 3 / 10), (''9'', 3 / 10),
      (''ST'', 1 / 20), (''default'', 1 / 10)]"

definition starts_with :: "string \<Rightarrow> string \<Rightarrow> bool" where
  "starts_with s p = (take (length p) s = p)"

fun contains :: "string \<Rightarrow> string \<Rightarrow> bool" where
  "contains [] p = (p = [])"
| "contains (c # cs) p = (starts_with (c # cs) p \<or> contains cs p)"

text \<open>
  \<^verbatim>\<open>get_limit_pct_expr\<close> builds a polars expression:
  \<open>When c v e\<close> stands for \<^verbatim>\<open>pl.when(c).then(pl.lit(v)).otherwise(e)\<close>.
\<close>

datatype cond = Name_contains string | Code_starts_with string

datatype expr = Lit rat | When cond rat expr

fun eval_cond :: "cond \<Rightarrow> bar \<Rightarrow> bool option" where
  "eval_cond (Name_contains p) r = map_option (\<lambda>s. contains s p) (mingcheng r)"
| "eval_cond (Code_starts_with p) r = map_option (\<lambda>s. starts_with s p) (daima r)"

fun eval_expr :: "expr \<Rightarrow> bar \<Rightarrow> rat" where
  "eval_expr (Lit v) r = v"
| "eval_expr (When c v e) r = (if truthy (eval_cond c r) then v else eval_expr e r)"

definition get_limit_pct_expr :: expr where
  "get_limit_pct_expr =
     (let limit_expr =
            Lit (case map_of custom_limits ''default'' of Some v \<Rightarrow> v | None \<Rightarrow> 1 / 10);
          limit_expr =
            (case map_of custom_limits ''ST'' of
               Some v \<Rightarrow> When (Name_contains ''ST'') v limit_expr
             | None \<Rightarrow> limit_expr)
      in foldl (\<lambda>e (prefix, limit_pct).
                  if prefix \<noteq> ''ST'' \<and> prefix \<noteq> ''default''
                  then When (Code_starts_with prefix) limit_pct e else e)
               limit_expr custom_limits)"

text \<open>
  The columns \<^verbatim>\<open>compute_limits\<close> adds: previous close, limit percentage, limit-up
  price, limit-down price, and the flags limit-up, limit-down and break.
\<close>

record limits =
  zuoshou :: "rat option"
  xianzhi :: rat
  zhangtingjia :: "rat option"
  dietingjia :: "rat option"
  zhangting :: "bool option"
  dieting :: "bool option"
  zhaban :: "bool option"

definition limit_row :: "bar \<Rightarrow> rat option \<Rightarrow> limits" where
  "limit_row r prev =
     (let pct = eval_expr get_limit_pct_expr r;
          up = map_option (\<lambda>p. round2 (p * (1 + pct))) prev;
          down = map_option (\<lambda>p. round2 (p * (1 - pct))) prev;
          chg = map_option (\<lambda>c. c * (1 / 100)) (zhangdiefu r)
      in \<lparr> zuoshou = prev, xianzhi = pct, zhangtingjia = up, dietingjia = down,
           zhangting = or3 (lift2 (\<lambda>a b. a \<ge> b) chg (Some pct))
                           (lift2 (\<lambda>a b. a = b) up (shoupan r)),
           dieting = or3 (lift2 (\<lambda>a b. a \<le> b) chg (Some (- pct)))
                         (lift2 (\<lambda>a b. a = b) down (shoupan r)),
           zhaban = and3 (lift2 (\<lambda>a b. a = b) (map_option round2 (zuigao r)) up)
                         (lift2 (\<lambda>a b. a < b) (map_option round2 (shoupan r)) up) \<rparr>)"

text \<open>The previous close is the close shifted by one row inside the group.\<close>

definition compute_limits :: "bar list \<Rightarrow> limits list" where
  "compute_limits grp = map2 limit_row grp (shift 1 (map shoupan grp))"

section \<open>Streak engine: \<^verbatim>\<open>calculate_continuous_limit_up_optimized\<close>\<close>

definition cast_int32 :: "bool option \<Rightarrow> int option" where
  "cast_int32 b = map_option (\<lambda>v. if v then 1 else 0) b"

definition is_limit_changed :: "bool option list \<Rightarrow> int option list" where
  "is_limit_changed zt =
     map cast_int32 (map2 (lift2 (\<lambda>a b. a \<noteq> b)) zt (shift_fill (Some False) zt))"

text \<open>\<^verbatim>\<open>cumsum\<close>: a null cell stays null and leaves the running sum as it is.\<close>

fun cumsum :: "int \<Rightarrow> int option list \<Rightarrow> int option list" where
  "cumsum acc [] = []"
| "cumsum acc (None # xs) = None # cumsum acc xs"
| "cumsum acc (Some v # xs) = Some (acc + v) # cumsum (acc + v) xs"

definition limit_group :: "bool option list \<Rightarrow> int option list" where
  "limit_group zt = cumsum 0 (is_limit_changed zt)"

text \<open>
  \<^verbatim>\<open>pl.int_range(0, pl.count()).over([name, key])\<close> numbers from \<open>0\<close> the rows of the
  group that carry the same key, in row order; null is a key like any other.
\<close>

definition int_range_over :: "'a list \<Rightarrow> nat \<Rightarrow> int" where
  "int_range_over keys i = int (length (filter (\<lambda>k. k = keys ! i) (take i keys)))"

definition lianbanshu :: "bool option list \<Rightarrow> int list" where
  "lianbanshu zt =
     map (\<lambda>i. if truthy (zt ! i) then int_range_over (limit_group zt) i + 1 else 0)
         [0..<length zt]"

text \<open>
  \<^verbatim>\<open>rolling_sum(window_size, min_periods)\<close>: the sum of the non-null cells among the
  last \<open>window_size\<close> rows ending at the current one, null when fewer than
  \<open>min_periods\<close> of them are non-null.
\<close>

definition rolling_sum :: "nat \<Rightarrow> nat \<Rightarrow> int option list \<Rightarrow> int option list" where
  "rolling_sum window_size min_periods xs =
     map (\<lambda>i. let vs = List.map_filter id (drop (i + 1 - window_size) (take (i + 1) xs))
              in if min_periods \<le> length vs then Some (sum_list vs) else None)
         [0..<length xs]"

definition limit_up :: "bool option list \<Rightarrow> int option list" where
  "limit_up zt = map cast_int32 zt"

definition last_5days_count :: "bool option list \<Rightarrow> int option list" where
  "last_5days_count zt = rolling_sum 5 1 (limit_up zt)"

text \<open>
  The inner \<^verbatim>\<open>for j in range(current_pos, window_start - 1, -1)\<close> of
  \<^verbatim>\<open>process_group_with_precheck\<close>: the first \<open>j\<close>, going down from \<open>j\<close> to \<open>stop + 1\<close>,
  whose cell equals \<open>1\<close>.
\<close>

function range_down_find :: "int option list \<Rightarrow> int \<Rightarrow> int \<Rightarrow> int option" where
  "range_down_find lu j stop =
     (if stop < j
      then (if lu ! nat j = Some 1 then Some j else range_down_find lu (j - 1) stop)
      else None)"
  by pat_completeness auto
termination
  by (relation "measure (\<lambda>(lu, j, stop). nat (j - stop))") auto

text \<open>
  The \<^verbatim>\<open>while current_pos >= 0\<close> loop, with its three variables; the result is
  \<open>(consecutive_count, start_pos)\<close> at the exit.
\<close>

function walk :: "int option list \<Rightarrow> int \<Rightarrow> int \<Rightarrow> int \<Rightarrow> int \<times> int" where
  "walk lu consecutive_count start_pos current_pos =
     (if 0 \<le> current_pos
      then (case range_down_find lu current_pos (max 0 (current_pos - 4) - 1) of
              Some j \<Rightarrow> walk lu (consecutive_count + 1) j (j - 1)
            | None \<Rightarrow> (consecutive_count, start_pos))
      else (consecutive_count, start_pos))"
  by pat_completeness auto
termination
proof (relation "measure (\<lambda>(lu, c, s, p). nat (p + 1))")
  show "wf (measure (\<lambda>(lu, c, s, p). nat (p + 1)))" by simp
next
  fix lu :: "int option list" and consecutive_count start_pos current_pos j :: int
  assume pos: "0 \<le> current_pos"
    and found: "range_down_find lu current_pos (max 0 (current_pos - 4) - 1) = Some j"
  have below: "k \<le> i" if "range_down_find xs i stop = Some k" for xs i stop k
    using that
  proof (induction xs i stop rule: range_down_find.induct)
    case (1 xs i stop)
    show ?case
    proof (cases "stop < i \<and> xs ! nat i \<noteq> Some 1")
      case True
      with "1.prems" have "range_down_find xs (i - 1) stop = Some k" by simp
      with "1.IH" True show ?thesis by fastforce
    next
      case False
      with "1.prems" show ?thesis by (auto split: if_splits)
    qed
  qed
  from below [OF found] pos
  show "((lu, consecutive_count + 1, j, j - 1), (lu, consecutive_count, start_pos, current_pos))
        \<in> measure (\<lambda>(lu, c, s, p). nat (p + 1))"
    by simp
qed

declare range_down_find.simps [simp del] walk.simps [simp del]

text \<open>
  A board label \<^verbatim>\<open>"{D}tian{B}ban"\<close> is kept as the pair \<open>(D, B)\<close> of the two numbers the
  source formats into it: \<open>(0, 0)\<close> is the sentinel and \<open>(1, 1)\<close> the short-circuit label.
  Comparing a null cell with \<^verbatim>\<open><=\<close> raises \<^verbatim>\<open>TypeError\<close> in Python.  The other two
  errors belong to the persistence code: reading a local variable that was never
  assigned, and the exception \<^verbatim>\<open>create_limit_status_parquet\<close> raises after a failed write.
\<close>

datatype py_error = TypeError | UnboundLocalError | WriteFailed

type_synonym label = "int \<times> int"

definition board_label :: "int option list \<Rightarrow> int option list \<Rightarrow> nat \<Rightarrow> py_error + label" where
  "board_label lu l5 i =
     (let current_limit_up = lu ! i; last_5days_sum = l5 ! i in
      if current_limit_up \<noteq> Some 1 then Inr (0, 0)
      else (case last_5days_sum of
              None \<Rightarrow> Inl TypeError
            | Some s \<Rightarrow>
                if s \<le> 1 then Inr (1, 1)
                else (case walk lu 1 (int i) (int i - 1) of
                        (consecutive_count, start_pos) \<Rightarrow>
                          Inr (int i - start_pos + 1, consecutive_count))))"

text \<open>The loop over the rows of the group: the first error leaves the function.\<close>

fun collect :: "(py_error + 'a) list \<Rightarrow> py_error + 'a list" where
  "collect [] = Inr []"
| "collect (Inl e # rs) = Inl e"
| "collect (Inr x # rs) = (case collect rs of Inl e \<Rightarrow> Inl e | Inr xs \<Rightarrow> Inr (x # xs))"

definition process_group_with_precheck ::
  "int option list \<Rightarrow> int option list \<Rightarrow> py_error + label list" where
  "process_group_with_precheck lu l5 = collect (map (board_label lu l5) [0..<length lu])"

definition lianbantianshu :: "bool option list \<Rightarrow> py_error + label list" where
  "lianbantianshu zt = process_group_with_precheck (limit_up zt) (last_5days_count zt)"

text \<open>
  The backward scan without the pre-check: the same walk, entered on every limit-up
  row.  It is what the pre-check is compared with.
\<close>

definition unoptimised_label :: "int option list \<Rightarrow> nat \<Rightarrow> label" where
  "unoptimised_label lu i =
     (if lu ! i \<noteq> Some 1 then (0, 0)
      else (case walk lu 1 (int i) (int i - 1) of
              (consecutive_count, start_pos) \<Rightarrow> (int i - start_pos + 1, consecutive_count)))"

section \<open>Multi-period returns: \<^verbatim>\<open>calculate_stock_indicators\<close>\<close>




section \<open>Persistence: \<^verbatim>\<open>safe_write_parquet\<close> and the incremental update\<close>












section \<open>Predicates of the statements\<close>

text \<open>The supplied percentage change, as a fraction, is at least the limit percentage.\<close>

definition reaches_limit :: "bar \<Rightarrow> bool" where
  "reaches_limit r =
     (case zhangdiefu r of None \<Rightarrow> False
      | Some c \<Rightarrow> eval_expr get_limit_pct_expr r \<le> c * (1 / 100))"

text \<open>
  The supplied percentage change does not contradict the prices: a positive change comes
  with a close above the previous close \<open>p\<close>, a negative one with a close below it.
\<close>

definition change_agrees :: "bar \<Rightarrow> rat \<Rightarrow> bool" where
  "change_agrees r p =
     (case (zhangdiefu r, shoupan r) of
        (Some c, Some s) \<Rightarrow> (0 < c \<longrightarrow> p < s) \<and> (c < 0 \<longrightarrow> s < p)
      | _ \<Rightarrow> True)"

section \<open>Example rows and stores\<close>

text \<open>
  A row with the given code and name whose open, close and high are all \<open>c\<close> and whose
  supplied percentage change is \<open>pct\<close>.
\<close>

definition stock_row :: "string \<Rightarrow> string \<Rightarrow> rat \<Rightarrow> rat \<Rightarrow> bar" where
  "stock_row code name c pct =
     \<lparr>daima = Some code, mingcheng = Some name, kaipan = Some c, shoupan = Some c,
      zuigao = Some c, zhangdiefu = Some pct\<rparr>"

text \<open>Three rows of one stock: two rising candles, then a candle that closes at its open.\<close>

definition flat_after_two_up :: "bar list" where
  "flat_after_two_up =
     [\<lparr>daima = Some ''600000'', mingcheng = Some ''A'', kaipan = Some 10, shoupan = Some 11,
        zuigao = Some 11, zhangdiefu = Some 1\<rparr>,
      \<lparr>daima = Some ''600000'', mingcheng = Some ''A'', kaipan = Some 11, shoupan = Some 12,
        zuigao = Some 12, zhangdiefu = Some 1\<rparr>,
      \<lparr>daima = Some ''600000'', mingcheng = Some ''A'', kaipan = Some 12, shoupan = Some 12,
        zuigao = Some 12, zhangdiefu = Some 0\<rparr>]"


text \<open>Six rows of one stock: limit-up, four rows without, limit-up.\<close>

definition gap_of_four :: "bool option list" where
  "gap_of_four = [Some True, Some False, Some False, Some False, Some False, Some True]"

text \<open>
  Two rows of one stock: the first closes at 10 with a supplied change of \<open>1%\<close>, the
  second closes at 11 with a supplied change of \<open>10%\<close>.
\<close>

definition limit_up_on_second_day :: "bar list" where
  "limit_up_on_second_day = [stock_row ''600000'' ''A'' 10 1, stock_row ''600000'' ''A'' 11 10]"

text \<open>A first row that the provider reports with a change of \<open>44%\<close>.\<close>

definition first_day_up_44 :: "bar list" where
  "first_day_up_44 = [stock_row ''600000'' ''A'' 10 44]"

text \<open>
  Two rows of one stock closing at \<open>0.01\<close> with no change: both rounded limit prices of
  the second row are \<open>0.01\<close> and equal its close.
\<close>

definition penny_rows :: "bar list" where
  "penny_rows = [stock_row ''600000'' ''A'' (1 / 100) 0, stock_row ''600000'' ''A'' (1 / 100) 0]"

text \<open>Limit-up, five rows without, limit-up: the walk does not bridge five rows.\<close>

definition gap_of_five :: "bool option list" where
  "gap_of_five =
     [Some True, Some False, Some False, Some False, Some False, Some False, Some True]"

text \<open>Limit-up, four rows without, then two limit-up rows.\<close>

definition gap_of_four_then_next_day :: "bool option list" where
  "gap_of_four_then_next_day =
     [Some True, Some False, Some False, Some False, Some False, Some True, Some True]"





section \<open>Properties of the candle streaks\<close>

lemma length_streak_loop: "length (streak_loop prev ps) = length ps"
  by (induction ps arbitrary: prev) (simp_all add: Let_def)

lemma streak_loop_nth_nonneg:
  "0 \<le> prev \<Longrightarrow> i < length ps \<Longrightarrow> 0 \<le> streak_loop prev ps ! i"
proof (induction ps arbitrary: prev i)
  case Nil
  then show ?case by simp
next
  case (Cons p ps)
  show ?case
  proof (cases i)
    case 0
    with Cons.prems show ?thesis by (simp add: Let_def)
  next
    case (Suc j)
    with Cons.prems have j: "j < length ps" by simp
    have "0 \<le> (if truthy p then prev + 1 else 0)" using Cons.prems(1) by simp
    from Cons.IH [OF this j] Suc show ?thesis by (simp add: Let_def)
  qed
qed

lemma streak_loop_nth_falsy:
  "i < length ps \<Longrightarrow> \<not> truthy (ps ! i) \<Longrightarrow> streak_loop prev ps ! i = 0"
proof (induction ps arbitrary: prev i)
  case Nil
  then show ?case by simp
next
  case (Cons p ps)
  show ?case
  proof (cases i)
    case 0
    with Cons.prems show ?thesis by (simp add: Let_def)
  next
    case (Suc j)
    with Cons.prems have "j < length ps" "\<not> truthy (ps ! j)" by simp_all
    from Cons.IH [OF this] Suc show ?thesis by (simp add: Let_def)
  qed
qed

lemma not_both_candles: "\<not> (truthy (yangxian r) \<and> truthy (yinxian r))"
  by (cases "shoupan r"; cases "kaipan r") (auto simp: truthy_def yangxian_def yinxian_def)

lemma flat_candle:
  "shoupan r = kaipan r \<Longrightarrow> \<not> truthy (yangxian r) \<and> \<not> truthy (yinxian r)"
  by (cases "kaipan r") (auto simp: truthy_def yangxian_def yinxian_def)

text \<open>
  C10.  On every row of a group both candle counters are non-negative, at most one of
  them is positive, and on a row whose close equals its open both are \<open>0\<close>.
\<close>

theorem C10_candle_streaks:
  assumes "i < length grp"
  shows "0 \<le> up_streak grp ! i \<and> 0 \<le> down_streak grp ! i
       \<and> \<not> (0 < up_streak grp ! i \<and> 0 < down_streak grp ! i)
       \<and> (shoupan (grp ! i) = kaipan (grp ! i) \<longrightarrow>
            up_streak grp ! i = 0 \<and> down_streak grp ! i = 0)"
proof -
  let ?r = "grp ! i"
  have u0: "0 \<le> up_streak grp ! i"
    using assms by (simp add: up_streak_def calc_streaks_def streak_loop_nth_nonneg)
  have d0: "0 \<le> down_streak grp ! i"
    using assms by (simp add: down_streak_def calc_streaks_def streak_loop_nth_nonneg)
  have uz: "up_streak grp ! i = 0" if "\<not> truthy (yangxian ?r)"
    using assms that by (simp add: up_streak_def calc_streaks_def streak_loop_nth_falsy)
  have dz: "down_streak grp ! i = 0" if "\<not> truthy (yinxian ?r)"
    using assms that by (simp add: down_streak_def calc_streaks_def streak_loop_nth_falsy)
  have one: "\<not> (0 < up_streak grp ! i \<and> 0 < down_streak grp ! i)"
    using not_both_candles [of ?r] uz dz by auto
  have flat: "up_streak grp ! i = 0 \<and> down_streak grp ! i = 0"
    if "shoupan ?r = kaipan ?r"
    using flat_candle [OF that] uz dz by simp
  from u0 d0 one flat show ?thesis by blast
qed

theorem C10_candle_streaks_witness:
  "up_streak flat_after_two_up = [1, 2, 0] \<and> down_streak flat_after_two_up ! 2 = 0"
  using C10_candle_streaks [of 2 flat_after_two_up]
  by (simp add: flat_after_two_up_def up_streak_def calc_streaks_def yangxian_def truthy_def)

section \<open>The multi-period returns\<close>

lemma nth_shift:
  "i < length xs \<Longrightarrow> shift n xs ! i = (if n \<le> i then xs ! (i - n) else None)"
  by (simp add: shift_def nth_append)

lemma length_shift: "length (shift n xs) = length xs"
  by (simp add: shift_def)




section \<open>The limit percentage\<close>

text \<open>
  The expression \<^verbatim>\<open>get_limit_pct_expr\<close> returns: every later \<^verbatim>\<open>pl.when\<close> wraps the
  expression built so far, so the code prefixes are tested before the name.
\<close>

lemma get_limit_pct_expr_unfolded:
  "get_limit_pct_expr =
     When (Code_starts_with ''9'') (3 / 10)
      (When (Code_starts_with ''4'') (3 / 10)
        (When (Code_starts_with ''8'') (3 / 10)
          (When (Code_starts_with ''30'') (1 / 5)
            (When (Code_starts_with ''68'') (1 / 5)
              (When (Name_contains ''ST'') (1 / 20) (Lit (1 / 10)))))))"
  by (simp add: get_limit_pct_expr_def custom_limits_def)

text \<open>
  C2.  The claim gives a special-treatment stock \<open>5%\<close> whatever its code.  The program
  gives a stock named \<^verbatim>\<open>*ST A\<close> with code \<^verbatim>\<open>300001\<close> the \<open>20%\<close> of its code prefix.
\<close>

theorem C2_special_treatment_with_prefix_30:
  "eval_expr get_limit_pct_expr (stock_row ''300001'' ''*ST A'' 10 0) = 1 / 5
   \<and> eval_cond (Name_contains ''ST'') (stock_row ''300001'' ''*ST A'' 10 0) = Some True"
  by code_simp

section \<open>The pre-check of the board label\<close>

text \<open>
  C1.  On the last row of \<open>gap_of_four\<close> the rolling count over the five rows ending there
  is \<open>1\<close>, so the pre-check answers \<open>(1, 1)\<close>; the backward walk entered on that row
  reaches the first row and answers \<open>(6, 2)\<close>.
\<close>

theorem C1_precheck_differs_from_walk:
  "last_5days_count gap_of_four ! 5 = Some 1
   \<and> board_label (limit_up gap_of_four) (last_5days_count gap_of_four) 5 = Inr (1, 1)
   \<and> unoptimised_label (limit_up gap_of_four) 5 = (6, 2)"
  by code_simp

section \<open>The consecutive limit-up counter\<close>

text \<open>
  C6.  The first row has no previous close, so its flag is null; the second row is the
  first row of a limit-up run, and the program gives it the counter \<open>2\<close>.
\<close>

theorem C6_counter_after_null_flag:
  "map zhangting (compute_limits limit_up_on_second_day) = [None, Some True]
   \<and> lianbanshu (map zhangting (compute_limits limit_up_on_second_day)) = [0, 2]"
  by code_simp

section \<open>The first row of a group\<close>

lemma length_compute_limits: "length (compute_limits grp) = length grp"
  by (simp add: compute_limits_def length_shift)

lemma nth_compute_limits:
  "i < length grp \<Longrightarrow>
   compute_limits grp ! i = limit_row (grp ! i) (if 1 \<le> i then shoupan (grp ! (i - 1)) else None)"
  by (simp add: compute_limits_def length_shift nth_shift)

lemma zhangting_no_prev:
  "zhangting (limit_row r None) = (if reaches_limit r then Some True else None)"
  by (cases "zhangdiefu r") (simp_all add: limit_row_def reaches_limit_def Let_def)

lemma length_lianbanshu: "length (lianbanshu zt) = length zt"
  by (simp add: lianbanshu_def)

lemma lianbanshu_first:
  "zt \<noteq> [] \<Longrightarrow> lianbanshu zt ! 0 = (if truthy (zt ! 0) then 1 else 0)"
  by (cases zt) (simp_all add: lianbanshu_def int_range_over_def upt_rec)

lemma length_limit_up: "length (limit_up zt) = length zt"
  by (simp add: limit_up_def)

lemma length_last_5days_count: "length (last_5days_count zt) = length zt"
  by (simp add: last_5days_count_def rolling_sum_def limit_up_def)

lemma map_filter_snoc: "List.map_filter id (ws @ [Some v]) = List.map_filter id ws @ [v]"
  by (simp add: List.map_filter_def)

lemma window_snoc:
  assumes "i < length xs" "0 < w"
  shows "drop (i + 1 - w) (take (i + 1) xs) = drop (i + 1 - w) (take i xs) @ [xs ! i]"
proof -
  have "take (i + 1) xs = take i xs @ [xs ! i]"
    using assms by (simp add: take_Suc_conv_app_nth)
  moreover have "i + 1 - w \<le> length (take i xs)" using assms by simp
  ultimately show ?thesis using assms by (simp add: min_def)
qed

lemma last_5days_count_nonnull:
  assumes "i < length zt" "limit_up zt ! i = Some 1"
  shows "\<exists>s. last_5days_count zt ! i = Some s"
proof -
  let ?xs = "limit_up zt"
  have i: "i < length ?xs" using assms(1) by (simp add: length_limit_up)
  have "drop (i + 1 - 5) (take (i + 1) ?xs) = drop (i + 1 - 5) (take i ?xs) @ [Some 1]"
    using window_snoc [OF i, of 5] assms(2) by simp
  then have "1 \<le> length (List.map_filter id (drop (i + 1 - 5) (take (i + 1) ?xs)))"
    by (simp add: map_filter_snoc)
  then show ?thesis
    using i by (simp add: last_5days_count_def rolling_sum_def Let_def)
qed

lemma board_label_no_error:
  assumes "i < length zt"
  shows "\<exists>l. board_label (limit_up zt) (last_5days_count zt) i = Inr l"
proof (cases "limit_up zt ! i = Some 1")
  case True
  from last_5days_count_nonnull [OF assms True]
  obtain s where "last_5days_count zt ! i = Some s" by blast
  with True show ?thesis
    by (simp add: board_label_def Let_def split: prod.split)
next
  case False
  then show ?thesis by (simp add: board_label_def Let_def)
qed

lemma collect_all_Inr:
  "(\<And>i. i < length rs \<Longrightarrow> \<exists>v. rs ! i = Inr v) \<Longrightarrow>
   \<exists>vs. collect rs = Inr vs \<and> length vs = length rs \<and> (\<forall>i < length rs. rs ! i = Inr (vs ! i))"
proof (induction rs)
  case Nil
  then show ?case by simp
next
  case (Cons r rs)
  from Cons.prems [of 0] obtain v where v: "r = Inr v" by auto
  have "\<And>i. i < length rs \<Longrightarrow> \<exists>v. rs ! i = Inr v"
    using Cons.prems [of "Suc _"] by simp
  from Cons.IH [OF this] obtain vs where
    vs: "collect rs = Inr vs" "length vs = length rs" "\<forall>i < length rs. rs ! i = Inr (vs ! i)"
    by blast
  have "\<forall>i < length (r # rs). (r # rs) ! i = Inr ((v # vs) ! i)"
    using v vs(3) by (auto simp: nth_Cons split: nat.split)
  with v vs(1,2) show ?case by simp
qed

lemma lianbantianshu_total:
  "\<exists>ls. lianbantianshu zt = Inr ls \<and> length ls = length zt
        \<and> (\<forall>i < length zt. board_label (limit_up zt) (last_5days_count zt) i = Inr (ls ! i))"
proof -
  let ?rs = "map (board_label (limit_up zt) (last_5days_count zt)) [0..<length zt]"
  have "\<And>i. i < length ?rs \<Longrightarrow> \<exists>v. ?rs ! i = Inr v"
    using board_label_no_error [of _ zt] by simp
  from collect_all_Inr [OF this] obtain vs where
    "collect ?rs = Inr vs" "length vs = length ?rs" "\<forall>i < length ?rs. ?rs ! i = Inr (vs ! i)"
    by blast
  then show ?thesis
    by (auto simp: lianbantianshu_def process_group_with_precheck_def length_limit_up)
qed

lemma first_row_count:
  assumes "zt \<noteq> []" "zt ! 0 = Some True"
  shows "last_5days_count zt ! 0 = Some 1"
  using assms by (cases zt) (simp_all add: last_5days_count_def rolling_sum_def limit_up_def
      cast_int32_def List.map_filter_def upt_rec)

lemma board_label_first:
  assumes "zt \<noteq> []"
  shows "board_label (limit_up zt) (last_5days_count zt) 0 =
           Inr (if truthy (zt ! 0) then (1, 1) else (0, 0))"
proof (cases "zt ! 0 = Some True")
  case True
  then have "limit_up zt ! 0 = Some 1" using assms by (cases zt) (simp_all add: limit_up_def cast_int32_def)
  with first_row_count [OF assms True] True show ?thesis
    by (simp add: board_label_def truthy_def)
next
  case False
  then have "limit_up zt ! 0 \<noteq> Some 1"
    using assms by (cases zt; cases "zt ! 0") (auto simp: limit_up_def cast_int32_def)
  with False show ?thesis by (simp add: board_label_def truthy_def)
qed

text \<open>
  C5.  The first row of a group has no previous close.  Processing the group never
  raises.  The first row is limit-up exactly when the supplied percentage change reaches
  the limit percentage: then its counter is \<open>1\<close> and its label \<open>(1, 1)\<close>; otherwise its
  flag is null, its counter \<open>0\<close> and its label the sentinel \<open>(0, 0)\<close>.
\<close>

theorem C5_first_row:
  assumes "grp \<noteq> []" and "zt = map zhangting (compute_limits grp)"
  shows "\<exists>ls. lianbantianshu zt = Inr ls \<and> length ls = length grp
           \<and> (if reaches_limit (grp ! 0)
               then zt ! 0 = Some True \<and> lianbanshu zt ! 0 = 1 \<and> ls ! 0 = (1, 1)
               else zt ! 0 = None \<and> lianbanshu zt ! 0 = 0 \<and> ls ! 0 = (0, 0))"
proof -
  have len: "length zt = length grp" using assms(2) by (simp add: length_compute_limits)
  with assms(1) have ne: "zt \<noteq> []" by auto
  have z0: "zt ! 0 = (if reaches_limit (grp ! 0) then Some True else None)"
    using assms by (simp add: length_compute_limits nth_compute_limits zhangting_no_prev)
  from lianbantianshu_total [of zt] obtain ls where
    ls: "lianbantianshu zt = Inr ls" "length ls = length zt"
        "\<forall>i < length zt. board_label (limit_up zt) (last_5days_count zt) i = Inr (ls ! i)"
    by blast
  from ls(3) ne have "board_label (limit_up zt) (last_5days_count zt) 0 = Inr (ls ! 0)" by simp
  with board_label_first [OF ne] have l0: "ls ! 0 = (if truthy (zt ! 0) then (1, 1) else (0, 0))"
    by simp
  have s0: "lianbanshu zt ! 0 = (if truthy (zt ! 0) then 1 else 0)"
    by (rule lianbanshu_first [OF ne])
  show ?thesis
    using ls(1,2) len z0 l0 s0 by (auto simp: truthy_def)
qed

theorem C5_first_row_counterexample:
  "map zhangting (compute_limits first_day_up_44) = [Some True]
   \<and> lianbanshu (map zhangting (compute_limits first_day_up_44)) = [1]
   \<and> lianbantianshu (map zhangting (compute_limits first_day_up_44)) = Inr [(1, 1)]"
  by code_simp

theorem C5_first_row_witness:
  "\<exists>ls. lianbantianshu (map zhangting (compute_limits limit_up_on_second_day)) = Inr ls
        \<and> length ls = 2
        \<and> map zhangting (compute_limits limit_up_on_second_day) ! 0 = None
        \<and> lianbanshu (map zhangting (compute_limits limit_up_on_second_day)) ! 0 = 0
        \<and> ls ! 0 = (0, 0)"
proof -
  have ne: "limit_up_on_second_day \<noteq> []" by (simp add: limit_up_on_second_day_def)
  have len: "length limit_up_on_second_day = 2" by (simp add: limit_up_on_second_day_def)
  have nr: "\<not> reaches_limit (limit_up_on_second_day ! 0)" by code_simp
  from C5_first_row [OF ne refl] nr len show ?thesis by simp
qed

section \<open>Limit-up and limit-down on the same row\<close>

lemma round2_close: "\<bar>round2 x - x\<bar> \<le> 1 / 200"
proof (cases "0 \<le> x")
  case True
  define n :: rat where "n = of_int \<lfloor>x * 100 + 1 / 2\<rfloor>"
  have "n \<le> x * 100 + 1 / 2" "x * 100 + 1 / 2 < n + 1" unfolding n_def by linarith+
  moreover have "round2 x = n / 100" using True by (simp add: round2_def n_def)
  ultimately show ?thesis by linarith
next
  case False
  define n :: rat where "n = of_int \<lfloor>- x * 100 + 1 / 2\<rfloor>"
  have "n \<le> - x * 100 + 1 / 2" "- x * 100 + 1 / 2 < n + 1" unfolding n_def by linarith+
  moreover have "round2 x = - (n / 100)" using False by (simp add: round2_def n_def)
  ultimately show ?thesis by linarith
qed

lemma limit_pct_values:
  "eval_expr get_limit_pct_expr r \<in> {1 / 20, 1 / 10, 1 / 5, 3 / 10}"
  by (simp add: get_limit_pct_expr_unfolded)

lemma limit_pct_lower: "1 / 20 \<le> eval_expr get_limit_pct_expr r"
  using limit_pct_values [of r] by auto

lemma not_truthy_None: "\<not> truthy None"
  by (simp add: truthy_def)

lemma truthy_or3: "truthy (or3 a b) \<longleftrightarrow> truthy a \<or> truthy b"
  by (cases "(a, b)" rule: or3.cases) (auto simp: truthy_def)

lemma truthy_lift2:
  "truthy (lift2 f a b) \<longleftrightarrow> (\<exists>x y. a = Some x \<and> b = Some y \<and> f x y)"
  by (cases a; cases b) (auto simp: truthy_def)

lemma flags_exclusive_no_prev:
  "\<not> (truthy (zhangting (limit_row r None)) \<and> truthy (dieting (limit_row r None)))"
  using limit_pct_lower [of r]
  by (auto simp: limit_row_def Let_def truthy_or3 truthy_lift2 not_truthy_None)

lemma flags_exclusive_prev:
  assumes "1 / 10 < p" "change_agrees r p"
  shows "\<not> (truthy (zhangting (limit_row r (Some p))) \<and> truthy (dieting (limit_row r (Some p))))"
proof
  let ?pct = "eval_expr get_limit_pct_expr r"
  let ?up = "round2 (p * (1 + ?pct))" and ?down = "round2 (p * (1 - ?pct))"
  assume both: "truthy (zhangting (limit_row r (Some p))) \<and> truthy (dieting (limit_row r (Some p)))"
  have pct: "1 / 20 \<le> ?pct" by (rule limit_pct_lower)
  have "1 / 10 * (1 / 20) < p * ?pct"
    using assms(1) pct by (intro mult_less_le_imp_less) simp_all
  then have gap: "1 / 200 < p * ?pct" by simp
  have up: "p * (1 + ?pct) - 1 / 200 \<le> ?up"
    using round2_close [of "p * (1 + ?pct)"] by linarith
  have down: "?down \<le> p * (1 - ?pct) + 1 / 200"
    using round2_close [of "p * (1 - ?pct)"] by linarith
  have up_gt: "p < ?up" using up gap by (simp add: algebra_simps)
  have down_lt: "?down < p" using down gap by (simp add: algebra_simps)
  from both have zt: "(\<exists>c. zhangdiefu r = Some c \<and> ?pct \<le> c * (1 / 100)) \<or> shoupan r = Some ?up"
    by (auto simp: limit_row_def Let_def truthy_or3 truthy_lift2)
  from both have dt: "(\<exists>c. zhangdiefu r = Some c \<and> c * (1 / 100) \<le> - ?pct) \<or> shoupan r = Some ?down"
    by (auto simp: limit_row_def Let_def truthy_or3 truthy_lift2)
  from zt dt show False
  proof (elim disjE exE conjE)
    fix c d assume "zhangdiefu r = Some c" "?pct \<le> c * (1 / 100)" "zhangdiefu r = Some d" "d * (1 / 100) \<le> - ?pct"
    with pct show False by simp
  next
    fix c assume c: "zhangdiefu r = Some c" "?pct \<le> c * (1 / 100)" and s: "shoupan r = Some ?down"
    from c(2) pct have "0 < c" by simp
    with assms(2) c(1) s have "p < ?down" by (simp add: change_agrees_def)
    with down_lt show False by simp
  next
    fix c assume c: "zhangdiefu r = Some c" "c * (1 / 100) \<le> - ?pct" and s: "shoupan r = Some ?up"
    from c(2) pct have "c < 0" by simp
    with assms(2) c(1) s have "?up < p" by (simp add: change_agrees_def)
    with up_gt show False by simp
  next
    assume "shoupan r = Some ?up" "shoupan r = Some ?down"
    then have "?up = ?down" by simp
    with up_gt down_lt show False by simp
  qed
qed

text \<open>
  C4.  On a row without a previous close, and on a row whose previous close is above
  \<open>0.10\<close> and whose supplied percentage change agrees with the prices, the limit-up and
  the limit-down flag are not both true.
\<close>

theorem C4_flags_exclusive:
  assumes "i < length grp"
    and "\<And>p. 0 < i \<Longrightarrow> shoupan (grp ! (i - 1)) = Some p \<Longrightarrow> 1 / 10 < p \<and> change_agrees (grp ! i) p"
  shows "\<not> (truthy (zhangting (compute_limits grp ! i)) \<and> truthy (dieting (compute_limits grp ! i)))"
proof (cases "1 \<le> i")
  case True
  show ?thesis
  proof (cases "shoupan (grp ! (i - 1))")
    case None
    with True assms(1) show ?thesis
      by (simp add: nth_compute_limits flags_exclusive_no_prev)
  next
    case (Some p)
    with assms(2) [of p] True have "1 / 10 < p" "change_agrees (grp ! i) p" by simp_all
    from flags_exclusive_prev [OF this] Some True assms(1) show ?thesis
      by (simp add: nth_compute_limits)
  qed
next
  case False
  with assms(1) show ?thesis by (simp add: nth_compute_limits flags_exclusive_no_prev)
qed

theorem C4_flags_exclusive_counterexample:
  "zhangtingjia (compute_limits penny_rows ! 1) = Some (1 / 100)
   \<and> dietingjia (compute_limits penny_rows ! 1) = Some (1 / 100)
   \<and> zhangting (compute_limits penny_rows ! 1) = Some True
   \<and> dieting (compute_limits penny_rows ! 1) = Some True"
  by code_simp

theorem C4_flags_exclusive_witness:
  "truthy (zhangting (compute_limits limit_up_on_second_day ! 1))
   \<and> \<not> truthy (dieting (compute_limits limit_up_on_second_day ! 1))"
proof -
  have len: "1 < length limit_up_on_second_day" by (simp add: limit_up_on_second_day_def)
  have prev: "shoupan (limit_up_on_second_day ! (1 - 1)) = Some 10"
    by (simp add: limit_up_on_second_day_def stock_row_def)
  have agrees: "change_agrees (limit_up_on_second_day ! 1) 10" by code_simp
  have up: "truthy (zhangting (compute_limits limit_up_on_second_day ! 1))" by code_simp
  have "\<not> (truthy (zhangting (compute_limits limit_up_on_second_day ! 1))
           \<and> truthy (dieting (compute_limits limit_up_on_second_day ! 1)))"
    using C4_flags_exclusive [OF len] prev agrees by simp
  with up show ?thesis by simp
qed

section \<open>The backward walk of the board label\<close>

lemma range_down_find_nearest:
  "stop < k \<Longrightarrow> k \<le> j \<Longrightarrow> lu ! nat k = Some 1 \<Longrightarrow>
   (\<And>m. k < m \<Longrightarrow> m \<le> j \<Longrightarrow> lu ! nat m \<noteq> Some 1) \<Longrightarrow>
   range_down_find lu j stop = Some k"
proof (induction lu j stop rule: range_down_find.induct)
  case (1 lu j stop)
  from "1.prems"(1,2) have sj: "stop < j" by simp
  show ?case
  proof (cases "k = j")
    case True
    with sj "1.prems"(3) show ?thesis by (subst range_down_find.simps) simp
  next
    case False
    with "1.prems"(2) have kj: "k < j" "k \<le> j - 1" by simp_all
    from "1.prems"(4) [OF kj(1)] have miss: "lu ! nat j \<noteq> Some 1" by simp
    have "range_down_find lu (j - 1) stop = Some k"
      using "1.IH" [OF sj miss "1.prems"(1) kj(2) "1.prems"(3)] "1.prems"(4) by simp
    with sj miss show ?thesis by (subst range_down_find.simps) simp
  qed
qed

lemma range_down_find_none:
  "(\<And>m. stop < m \<Longrightarrow> m \<le> j \<Longrightarrow> lu ! nat m \<noteq> Some 1) \<Longrightarrow>
   range_down_find lu j stop = None"
proof (induction lu j stop rule: range_down_find.induct)
  case (1 lu j stop)
  show ?case
  proof (cases "stop < j")
    case True
    from "1.prems" [OF True] have miss: "lu ! nat j \<noteq> Some 1" by simp
    have "range_down_find lu (j - 1) stop = None"
      using "1.IH" [OF True miss] "1.prems" by simp
    with True miss show ?thesis by (subst range_down_find.simps) simp
  next
    case False
    then show ?thesis by (subst range_down_find.simps) simp
  qed
qed

lemma walk_extends:
  assumes "j < p" "p \<le> j + 5" "lu ! j = Some 1"
    and "\<And>k. j < k \<Longrightarrow> k < p \<Longrightarrow> lu ! k \<noteq> Some 1"
  shows "walk lu c s (int p - 1) = walk lu (c + 1) (int j) (int j - 1)"
proof -
  have "range_down_find lu (int p - 1) (max 0 (int p - 1 - 4) - 1) = Some (int j)"
  proof (rule range_down_find_nearest)
    show "max 0 (int p - 1 - 4) - 1 < int j" using assms(2) by simp
    show "int j \<le> int p - 1" using assms(1) by simp
    show "lu ! nat (int j) = Some 1" using assms(3) by simp
    show "lu ! nat m \<noteq> Some 1" if "int j < m" "m \<le> int p - 1" for m
      using assms(4) [of "nat m"] that by simp
  qed
  moreover have "0 \<le> int p - 1" using assms(1) by simp
  ultimately show ?thesis by (subst walk.simps) simp
qed

lemma walk_stops:
  assumes "\<And>k. k < p \<Longrightarrow> p \<le> k + 5 \<Longrightarrow> lu ! k \<noteq> Some 1"
  shows "walk lu c s (int p - 1) = (c, s)"
proof (cases "0 \<le> int p - 1")
  case True
  have "range_down_find lu (int p - 1) (max 0 (int p - 1 - 4) - 1) = None"
  proof (rule range_down_find_none)
    show "lu ! nat m \<noteq> Some 1" if "max 0 (int p - 1 - 4) - 1 < m" "m \<le> int p - 1" for m
      using assms [of "nat m"] that by simp
  qed
  with True show ?thesis by (subst walk.simps) simp
next
  case False
  then show ?thesis by (subst walk.simps) simp
qed

text \<open>
  C3.  On a limit-up row \<open>r\<close> whose rolling count is at least \<open>2\<close> the label is read off
  the walk started at \<open>r\<close>.  A pointer at row \<open>p\<close> moves to the nearest earlier limit-up
  row \<open>j\<close>, with one more board, when \<open>j\<close> is among the five rows before \<open>p\<close>, that is
  when at most four rows without limit-up lie between them; the walk ends at \<open>p\<close> when none
  of the five rows before \<open>p\<close> is limit-up.
\<close>

theorem C3_chain_step:
  "(lu ! r = Some 1 \<and> l5 ! r = Some n \<and> 1 < n \<longrightarrow>
      board_label lu l5 r =
        Inr (int r - snd (walk lu 1 (int r) (int r - 1)) + 1, fst (walk lu 1 (int r) (int r - 1))))
   \<and> (j < p \<and> p \<le> j + 5 \<and> lu ! j = Some 1 \<and> (\<forall>k. j < k \<and> k < p \<longrightarrow> lu ! k \<noteq> Some 1) \<longrightarrow>
        walk lu c (int p) (int p - 1) = walk lu (c + 1) (int j) (int j - 1))
   \<and> ((\<forall>k. k < p \<and> p \<le> k + 5 \<longrightarrow> lu ! k \<noteq> Some 1) \<longrightarrow>
        walk lu c (int p) (int p - 1) = (c, int p))"
proof (intro conjI impI)
  assume "lu ! r = Some 1 \<and> l5 ! r = Some n \<and> 1 < n"
  then show "board_label lu l5 r =
        Inr (int r - snd (walk lu 1 (int r) (int r - 1)) + 1, fst (walk lu 1 (int r) (int r - 1)))"
    by (simp add: board_label_def split: prod.split)
next
  assume "j < p \<and> p \<le> j + 5 \<and> lu ! j = Some 1 \<and> (\<forall>k. j < k \<and> k < p \<longrightarrow> lu ! k \<noteq> Some 1)"
  then show "walk lu c (int p) (int p - 1) = walk lu (c + 1) (int j) (int j - 1)"
    by (intro walk_extends) auto
next
  assume "\<forall>k. k < p \<and> p \<le> k + 5 \<longrightarrow> lu ! k \<noteq> Some 1"
  then show "walk lu c (int p) (int p - 1) = (c, int p)"
    by (intro walk_stops) auto
qed

theorem C3_chain_step_counterexample:
  "board_label (limit_up gap_of_five) (last_5days_count gap_of_five) 6 = Inr (1, 1)
   \<and> unoptimised_label (limit_up gap_of_five) 6 = (1, 1)"
  by code_simp

theorem C3_chain_step_witness:
  "board_label (limit_up gap_of_four_then_next_day) (last_5days_count gap_of_four_then_next_day) 6
     = Inr (7, 3)
   \<and> walk (limit_up gap_of_four_then_next_day) 2 5 4 = walk (limit_up gap_of_four_then_next_day) 3 0 (- 1)
   \<and> walk (limit_up gap_of_four_then_next_day) 3 0 (- 1) = (3, 0)"
proof -
  let ?lu = "limit_up gap_of_four_then_next_day"
  let ?l5 = "last_5days_count gap_of_four_then_next_day"
  have lu: "?lu = [Some 1, Some 0, Some 0, Some 0, Some 0, Some 1, Some 1]" by code_simp
  have l5: "?l5 ! 6 = Some 2" by code_simp
  have w: "walk ?lu 1 6 5 = (3, 0)" by code_simp
  have a: "board_label ?lu ?l5 6 = Inr (7, 3)"
    using C3_chain_step [of ?lu 6 ?l5 2] lu l5 w by simp
  have gap: "\<forall>k. 0 < k \<and> k < 5 \<longrightarrow> ?lu ! k \<noteq> Some 1"
  proof (intro allI impI)
    fix k :: nat assume "0 < k \<and> k < 5"
    then have "k = 1 \<or> k = 2 \<or> k = 3 \<or> k = 4" by arith
    then show "?lu ! k \<noteq> Some 1" using lu by auto
  qed
  have b: "walk ?lu 2 5 4 = walk ?lu 3 0 (- 1)"
    using C3_chain_step [of ?lu 0 ?l5 0 0 5 2] lu gap by simp
  have c: "walk ?lu 3 0 (- 1) = (3, 0)"
    using C3_chain_step [of ?lu 0 ?l5 0 0 0 3] by simp
  from a b c show ?thesis by simp
qed

section \<open>Persistence and the incremental update\<close>









end
